theory Spec2Isabelle
  imports Main "HOL-Library.Sublist"
begin

section \<open>Python strings\<close>

text \<open>
  A Python \<open>str\<close> is a sequence of code points. The model takes the code points
  U+0000 .. U+00FF, one \<open>char\<close> each, so \<open>length\<close> is Python's \<open>len\<close>.
  \<open>str.isspace\<close>, \<open>str.strip\<close> and \<open>str.lower\<close> are written out for that range.
\<close>

definition whitespace :: "char list" where
  "whitespace = [CHR 0x09, CHR 0x0A, CHR 0x0B, CHR 0x0C, CHR 0x0D, CHR 0x1C, CHR 0x1D,
     CHR 0x1E, CHR 0x1F, CHR 0x20, CHR 0x85, CHR 0xA0]"

definition isspace :: "char \<Rightarrow> bool" where
  "isspace c = (c \<in> set whitespace)"

definition strip :: "string \<Rightarrow> string" where
  "strip s = rev (dropWhile isspace (rev (dropWhile isspace s)))"

definition uppers :: "char list" where
  "uppers = ''ABCDEFGHIJKLMNOPQRSTUVWXYZ'' @
     [CHR 0xC0, CHR 0xC1, CHR 0xC2, CHR 0xC3, CHR 0xC4, CHR 0xC5, CHR 0xC6, CHR 0xC7,
      CHR 0xC8, CHR 0xC9, CHR 0xCA, CHR 0xCB, CHR 0xCC, CHR 0xCD, CHR 0xCE, CHR 0xCF,
      CHR 0xD0, CHR 0xD1, CHR 0xD2, CHR 0xD3, CHR 0xD4, CHR 0xD5, CHR 0xD6,
      CHR 0xD8, CHR 0xD9, CHR 0xDA, CHR 0xDB, CHR 0xDC, CHR 0xDD, CHR 0xDE]"

definition lowers :: "char list" where
  "lowers = ''abcdefghijklmnopqrstuvwxyz'' @
     [CHR 0xE0, CHR 0xE1, CHR 0xE2, CHR 0xE3, CHR 0xE4, CHR 0xE5, CHR 0xE6, CHR 0xE7,
      CHR 0xE8, CHR 0xE9, CHR 0xEA, CHR 0xEB, CHR 0xEC, CHR 0xED, CHR 0xEE, CHR 0xEF,
      CHR 0xF0, CHR 0xF1, CHR 0xF2, CHR 0xF3, CHR 0xF4, CHR 0xF5, CHR 0xF6,
      CHR 0xF8, CHR 0xF9, CHR 0xFA, CHR 0xFB, CHR 0xFC, CHR 0xFD, CHR 0xFE]"

definition lower_char :: "char \<Rightarrow> char" where
  "lower_char c = (case map_of (zip uppers lowers) c of Some l \<Rightarrow> l | None \<Rightarrow> c)"

definition lower :: "string \<Rightarrow> string" where
  "lower s = map lower_char s"

text \<open>\<open>sub in s\<close>: \<open>sub\<close> occurs in \<open>s\<close> as a contiguous substring.\<close>

fun str_in :: "string \<Rightarrow> string \<Rightarrow> bool" where
  "str_in sub [] = (sub = [])"
| "str_in sub (c # cs) = (prefix sub (c # cs) \<or> str_in sub cs)"

text \<open>\<open>sep.join(parts)\<close>.\<close>

fun join :: "string \<Rightarrow> string list \<Rightarrow> string" where
  "join sep [] = []"
| "join sep [x] = x"
| "join sep (x # y # ys) = x @ sep @ join sep (y # ys)"

text \<open>
  \<open>s.replace(old, new)\<close>: every occurrence of \<open>old\<close>, found left to right without
  overlap, becomes \<open>new\<close>. With an empty \<open>old\<close> Python puts \<open>new\<close> around every character.
\<close>

function replace :: "string \<Rightarrow> string \<Rightarrow> string \<Rightarrow> string" where
  "replace old new s =
     (if old = [] then new @ concat (map (\<lambda>c. c # new) s)
      else if s = [] then []
      else if prefix old s then new @ replace old new (drop (length old) s)
      else hd s # replace old new (tl s))"
  by pat_completeness auto
termination
  by (relation "measure (\<lambda>(old, new, s). length s)") auto

declare replace.simps [simp del]

definition blank_line :: string where
  "blank_line = [CHR 0x0A, CHR 0x0A]"

section \<open>Regular expressions\<close>

text \<open>
  The patterns of the source are sequences of single characters and character classes,
  each taken once or under \<open>*\<close>, \<open>+\<close> or \<open>*?\<close>, with capture groups that do not nest.
  A pattern is the list of its atoms; an atom carries the number of the group it lies in
  (0 outside every group), its quantifier and its class. A match is the list of the
  characters it consumed, each with the group number of the atom that consumed it.
\<close>

datatype cclass = OneOf "char list" | NoneOf "char list" | AnyChar | SpaceChar | NoCase char

fun in_class :: "cclass \<Rightarrow> char \<Rightarrow> bool" where
  "in_class (OneOf cs) c = (c \<in> set cs)"
| "in_class (NoneOf cs) c = (c \<notin> set cs)"
| "in_class AnyChar c = True"
| "in_class SpaceChar c = isspace c"
| "in_class (NoCase d) c = (lower_char c = lower_char d)"

datatype quant = One | Star | Plus | LazyStar

type_synonym atom = "nat \<times> quant \<times> cclass"
type_synonym pattern = "atom list"
type_synonym rmatch = "(nat \<times> char) list"

text \<open>
  Matching at the start of a string, with backtracking: a greedy quantifier takes the
  longest run first and gives characters back one at a time, a lazy one takes the
  shortest first. The result is the match and the rest of the string.
\<close>

fun match_here :: "pattern \<Rightarrow> string \<Rightarrow> (rmatch \<times> string) option" where
  "match_here [] s = Some ([], s)"
| "match_here ((g, One, cl) # r) [] = None"
| "match_here ((g, One, cl) # r) (c # cs) =
     (if in_class cl c
      then (case match_here r cs of Some (m, rest) \<Rightarrow> Some ((g, c) # m, rest) | None \<Rightarrow> None)
      else None)"
| "match_here ((g, Plus, cl) # r) [] = None"
| "match_here ((g, Plus, cl) # r) (c # cs) =
     (if in_class cl c
      then (case match_here ((g, Star, cl) # r) cs of
              Some (m, rest) \<Rightarrow> Some ((g, c) # m, rest) | None \<Rightarrow> None)
      else None)"
| "match_here ((g, Star, cl) # r) [] = match_here r []"
| "match_here ((g, Star, cl) # r) (c # cs) =
     (if in_class cl c
      then (case match_here ((g, Star, cl) # r) cs of
              Some (m, rest) \<Rightarrow> Some ((g, c) # m, rest)
            | None \<Rightarrow> match_here r (c # cs))
      else match_here r (c # cs))"
| "match_here ((g, LazyStar, cl) # r) [] = match_here r []"
| "match_here ((g, LazyStar, cl) # r) (c # cs) =
     (case match_here r (c # cs) of
        Some res \<Rightarrow> Some res
      | None \<Rightarrow>
          (if in_class cl c
           then (case match_here ((g, LazyStar, cl) # r) cs of
                   Some (m, rest) \<Rightarrow> Some ((g, c) # m, rest) | None \<Rightarrow> None)
           else None))"

text \<open>\<open>match.group(n)\<close>.\<close>

definition group :: "nat \<Rightarrow> rmatch \<Rightarrow> string" where
  "group n m = map snd (filter (\<lambda>(g, c). g = n) m)"

text \<open>\<open>pattern.search(s)\<close>: the match at the leftmost position that has one.\<close>

fun search :: "pattern \<Rightarrow> string \<Rightarrow> rmatch option" where
  "search pat [] = map_option fst (match_here pat [])"
| "search pat (c # cs) =
     (case match_here pat (c # cs) of Some (m, rest) \<Rightarrow> Some m | None \<Rightarrow> search pat cs)"

text \<open>
  \<open>pattern.findall(s)\<close>: the matches from left to right, each search starting where
  the match before it ended. The first argument of \<open>findall_from\<close> counts the
  characters of the last match that are still to be passed over. Both patterns the
  source hands to \<open>findall\<close> consume at least one character; Python's rule for what
  follows an empty match is not part of the model.
\<close>

fun findall_from :: "pattern \<Rightarrow> nat \<Rightarrow> string \<Rightarrow> rmatch list" where
  "findall_from pat (Suc k) [] = []"
| "findall_from pat (Suc k) (c # cs) = findall_from pat k cs"
| "findall_from pat 0 [] = (case match_here pat [] of Some (m, rest) \<Rightarrow> [m] | None \<Rightarrow> [])"
| "findall_from pat 0 (c # cs) =
     (case match_here pat (c # cs) of
        Some (m, rest) \<Rightarrow> m # findall_from pat (length m - 1) cs
      | None \<Rightarrow> findall_from pat 0 cs)"

definition findall :: "pattern \<Rightarrow> string \<Rightarrow> rmatch list" where
  "findall pat s = findall_from pat 0 s"

text \<open>A literal piece of a pattern, as written and under \<open>re.IGNORECASE\<close>.\<close>

definition lit :: "string \<Rightarrow> pattern" where
  "lit s = map (\<lambda>c. (0, One, OneOf [c])) s"

definition lit_ignorecase :: "string \<Rightarrow> pattern" where
  "lit_ignorecase s = map (\<lambda>c. (0, One, NoCase c)) s"

section \<open>The parsed document\<close>

text \<open>
  The tree \<open>BeautifulSoup(html_content, 'html.parser')\<close> builds: an element has a name,
  attributes and contents; a text node is a string. The attributes are the dictionary
  \<open>tag.attrs\<close> as an association list, one entry for each name, looked up with
  \<open>map_of\<close>. The text nodes are the strings that \<open>tag.text\<close> collects; comments and
  the contents of \<open>script\<close> and \<open>style\<close> elements, which it leaves out, are not
  part of the tree.
  A \<open>tag\<close> is an element of a document: the document's root and the path of child
  indices that leads to the element. The soup object itself is the root, with the empty
  path.
\<close>

datatype node = Text string | Elem string "(string \<times> string) list" "node list"

type_synonym tag = "node \<times> nat list"

fun node_at :: "node \<Rightarrow> nat list \<Rightarrow> node option" where
  "node_at n [] = Some n"
| "node_at (Text s) (i # p) = None"
| "node_at (Elem nm at cs) (i # p) = (if i < length cs then node_at (cs ! i) p else None)"

fun get_text :: "node \<Rightarrow> string" where
  "get_text (Text s) = s"
| "get_text (Elem nm at cs) = concat (map get_text cs)"

text \<open>\<open>tag.text\<close> and \<open>tag.name\<close>.\<close>

definition text_of :: "tag \<Rightarrow> string" where
  "text_of t = (case node_at (fst t) (snd t) of Some n \<Rightarrow> get_text n | None \<Rightarrow> [])"

definition name :: "tag \<Rightarrow> string" where
  "name t = (case node_at (fst t) (snd t) of Some (Elem nm at cs) \<Rightarrow> nm | _ \<Rightarrow> [])"

text \<open>The element descendants of a node in document order, each with its path.\<close>

fun descendants :: "node \<Rightarrow> (nat list \<times> node) list"
  and descendants_from :: "nat \<Rightarrow> node list \<Rightarrow> (nat list \<times> node) list" where
  "descendants (Text s) = []"
| "descendants (Elem nm at cs) = descendants_from 0 cs"
| "descendants_from i [] = []"
| "descendants_from i (c # cs) =
     (case c of
        Text s \<Rightarrow> []
      | Elem nm at ds \<Rightarrow> ([i], c) # map (\<lambda>(p, n). (i # p, n)) (descendants c))
     @ descendants_from (Suc i) cs"

text \<open>
  Document order on paths: an element comes before its descendants, and the subtree of
  a child before the subtrees of the children after it.
\<close>

definition doc_before :: "nat list \<Rightarrow> nat list \<Rightarrow> bool" where
  "doc_before p q = ((p, q) \<in> lexord {(i, j). i < j})"

subsection \<open>CSS selectors\<close>

text \<open>
  The selectors of the source are comma-separated lists of compound selectors made of a
  type selector, \<open>.class\<close>, \<open>#id\<close>, \<open>[attr='value']\<close> and \<open>:contains('text')\<close>.
  An element matches a list when it matches one of its compounds, and a compound when
  it matches each of its parts.
\<close>

datatype simple_sel =
    TypeSel string
  | ClassSel string
  | IdSel string
  | AttrSel string string
  | ContainsSel string

type_synonym selector = "simple_sel list list"

text \<open>The value of a \<open>class\<close> attribute is the list of its whitespace-separated words.\<close>

fun split_ws :: "string \<Rightarrow> string \<Rightarrow> string list" where
  "split_ws w [] = (if w = [] then [] else [w])"
| "split_ws w (c # cs) =
     (if isspace c then (if w = [] then split_ws [] cs else w # split_ws [] cs)
      else split_ws (w @ [c]) cs)"

fun matches_simple :: "simple_sel \<Rightarrow> node \<Rightarrow> bool" where
  "matches_simple sel (Text s) = False"
| "matches_simple (TypeSel t) (Elem nm at cs) = (nm = t)"
| "matches_simple (ClassSel c) (Elem nm at cs) =
     (case map_of at ''class'' of Some v \<Rightarrow> c \<in> set (split_ws [] v) | None \<Rightarrow> False)"
| "matches_simple (IdSel i) (Elem nm at cs) = (map_of at ''id'' = Some i)"
| "matches_simple (AttrSel a v) (Elem nm at cs) = (map_of at a = Some v)"
| "matches_simple (ContainsSel s) (Elem nm at cs) = str_in s (get_text (Elem nm at cs))"

definition matches :: "selector \<Rightarrow> node \<Rightarrow> bool" where
  "matches sel n = list_ex (\<lambda>compound. list_all (\<lambda>s. matches_simple s n) compound) sel"

text \<open>\<open>tag.select(selector)\<close>: the matching descendants of the tag, in document order.\<close>

definition select :: "selector \<Rightarrow> tag \<Rightarrow> tag list" where
  "select sel t =
     (case node_at (fst t) (snd t) of
        None \<Rightarrow> []
      | Some n \<Rightarrow> map (\<lambda>(p, e). (fst t, snd t @ p)) (filter (\<lambda>(p, e). matches sel e) (descendants n)))"

text \<open>\<open>tag.select_one(selector)\<close>: the first match, or \<open>None\<close>.\<close>

definition select_one :: "selector \<Rightarrow> tag \<Rightarrow> tag option" where
  "select_one sel t = (case select sel t of [] \<Rightarrow> None | e # es \<Rightarrow> Some e)"

text \<open>\<open>tag.parent\<close>: the soup object has none.\<close>

definition parent :: "tag \<Rightarrow> tag option" where
  "parent t = (if snd t = [] then None else Some (fst t, butlast (snd t)))"

text \<open>
  \<open>tag.find_next_sibling()\<close>: the next element after the tag among its parent's
  contents (text nodes are passed over), or \<open>None\<close>.
\<close>

fun first_elem_from :: "nat \<Rightarrow> node list \<Rightarrow> nat option" where
  "first_elem_from i [] = None"
| "first_elem_from i (Text s # cs) = first_elem_from (Suc i) cs"
| "first_elem_from i (Elem nm at ds # cs) = Some i"

definition find_next_sibling :: "tag \<Rightarrow> tag option" where
  "find_next_sibling t =
     (if snd t = [] then None
      else case node_at (fst t) (butlast (snd t)) of
        Some (Elem nm at cs) \<Rightarrow>
          (case first_elem_from (Suc (last (snd t))) (drop (Suc (last (snd t))) cs) of
             Some j \<Rightarrow> Some (fst t, butlast (snd t) @ [j])
           | None \<Rightarrow> None)
      | _ \<Rightarrow> None)"

text \<open>
  \<open>tag.find_next_siblings()\<close>: all the elements after the tag among its parent's
  contents, in document order. The source does not call it; the properties of the two
  sibling walks are stated with it.
\<close>

fun is_elem :: "node \<Rightarrow> bool" where
  "is_elem (Text s) = False"
| "is_elem (Elem nm at cs) = True"

definition find_next_siblings :: "tag \<Rightarrow> tag list" where
  "find_next_siblings t =
     (if snd t = [] then []
      else case node_at (fst t) (butlast (snd t)) of
        Some (Elem nm at cs) \<Rightarrow>
          map (\<lambda>j. (fst t, butlast (snd t) @ [j]))
            (filter (\<lambda>j. is_elem (cs ! j)) [Suc (last (snd t))..<length cs])
      | _ \<Rightarrow> [])"

section \<open>The extractor\<close>

record TranscriptExtractor =
  debug :: bool

subsection \<open>Metadata\<close>

definition title_selectors :: "selector list" where
  "title_selectors =
     [[[TypeSel ''h1'']],
      [[TypeSel ''h1'', ClassSel ''title'']],
      [[AttrSel ''data-test-id'' ''post-title'']],
      [[ClassSel ''title'']]]"

text \<open>
  The loop of \<open>extract_title\<close> over the selectors still to try. A tag is true in
  Python whatever it contains, so \<open>if title_elem\<close> asks only whether there is a match.
\<close>

fun extract_title_loop :: "selector list \<Rightarrow> tag \<Rightarrow> string" where
  "extract_title_loop [] soup = ''Title not found''"
| "extract_title_loop (selector # rest) soup =
     (case select_one selector soup of
        Some title_elem \<Rightarrow> strip (text_of title_elem)
      | None \<Rightarrow> extract_title_loop rest soup)"

definition extract_title :: "TranscriptExtractor \<Rightarrow> tag \<Rightarrow> string" where
  "extract_title self soup = extract_title_loop title_selectors soup"

subsection \<open>Strategy 1: transcript sections\<close>

text \<open>
  \<^verbatim>\<open>.transcript-section, .transcript-text, .sa-transcript, [data-id='sa-transcript'], [id='sa-transcript']\<close>
\<close>

definition transcript_section_selector :: selector where
  "transcript_section_selector =
     [[ClassSel ''transcript-section''], [ClassSel ''transcript-text''],
      [ClassSel ''sa-transcript''], [AttrSel ''data-id'' ''sa-transcript''],
      [AttrSel ''id'' ''sa-transcript'']]"

text \<open>
  \<^verbatim>\<open>strong:contains('Question-and-Answer'), h2:contains('Q&A'), h3:contains('Questions and Answers')\<close>
\<close>

definition qa_selector :: selector where
  "qa_selector =
     [[TypeSel ''strong'', ContainsSel ''Question-and-Answer''],
      [TypeSel ''h2'', ContainsSel ''Q&A''],
      [TypeSel ''h3'', ContainsSel ''Questions and Answers'']]"

text \<open>The elements after a tag among its parent's contents, counted for termination.\<close>

definition siblings_left :: "tag \<Rightarrow> nat" where
  "siblings_left t =
     (if snd t = [] then 0
      else case node_at (fst t) (butlast (snd t)) of
        Some (Elem nm at cs) \<Rightarrow> length cs - last (snd t)
      | _ \<Rightarrow> 0)"

text \<open>
  The \<open>while current_section\<close> loop of \<open>extract_transcript_sections\<close>: the text of
  the current element is collected when it is a \<open>div\<close> or a \<open>section\<close>, and the loop
  moves to the next sibling element.
\<close>

function qa_walk :: "tag option \<Rightarrow> string list \<Rightarrow> string list" where
  "qa_walk None content_parts = content_parts"
| "qa_walk (Some current_section) content_parts =
     qa_walk (find_next_sibling current_section)
       (if name current_section \<in> set [''div'', ''section'']
        then content_parts @ [strip (text_of current_section)]
        else content_parts)"
  by pat_completeness auto
termination
proof (relation "measure (\<lambda>(cur, parts). case cur of None \<Rightarrow> 0 | Some t \<Rightarrow> Suc (siblings_left t))")
  show "wf (measure (\<lambda>(cur, parts). case cur of None \<Rightarrow> 0 | Some t \<Rightarrow> Suc (siblings_left t)))"
    by simp
next
  fix current_section :: tag and content_parts :: "string list"
  have fe: "\<And>i cs j. first_elem_from i cs = Some j \<Longrightarrow> i \<le> j \<and> j < i + length cs"
  proof -
    fix i cs j
    show "first_elem_from i cs = Some j \<Longrightarrow> i \<le> j \<and> j < i + length cs"
      by (induction i cs rule: first_elem_from.induct) auto
  qed
  have "case find_next_sibling current_section of
          None \<Rightarrow> True
        | Some t \<Rightarrow> siblings_left t < siblings_left current_section"
    by (auto simp: find_next_sibling_def siblings_left_def
          split: option.splits node.splits dest!: fe)
  then show "((find_next_sibling current_section,
               if name current_section \<in> set [''div'', ''section'']
               then content_parts @ [strip (text_of current_section)] else content_parts),
              (Some current_section, content_parts))
             \<in> measure (\<lambda>(cur, parts). case cur of None \<Rightarrow> 0 | Some t \<Rightarrow> Suc (siblings_left t))"
    by (auto split: option.splits)
qed

definition extract_transcript_sections :: "TranscriptExtractor \<Rightarrow> tag \<Rightarrow> string" where
  "extract_transcript_sections self soup =
     (let transcript_sections = select transcript_section_selector soup in
      if transcript_sections \<noteq> []
      then join blank_line (map (\<lambda>section. strip (text_of section)) transcript_sections)
      else
        (case select qa_selector soup of
           [] \<Rightarrow> []
         | anchor # others \<Rightarrow>
             (let content_parts = qa_walk (parent anchor) [] in
              if content_parts \<noteq> [] then join blank_line content_parts else [])))"

subsection \<open>Strategy 2: content containers\<close>

definition container_selectors :: "selector list" where
  "container_selectors =
     [[[TypeSel ''div'', AttrSel ''data-test-id'' ''content-container'']],
      [[ClassSel ''paywall-content'']],
      [[IdSel ''content-container'']],
      [[ClassSel ''sa-art'']],
      [[TypeSel ''article'', ClassSel ''sa-content'']],
      [[ClassSel ''article-content'']],
      [[IdSel ''a-body'']],
      [[TypeSel ''div'', ClassSel ''media-article-content'']]]"

definition denylist :: "string list" where
  "denylist =
     [''disclosure:'', ''disclosure :'', [CHR 0xA9], ''all rights reserved'',
      ''seeking alpha'', ''editor's note'', ''make the most of premium'']"

text \<open>The \<open>for p in paragraphs\<close> loop, with the list collected so far.\<close>

fun filter_paragraphs :: "tag list \<Rightarrow> string list \<Rightarrow> string list" where
  "filter_paragraphs [] filtered_paragraphs = filtered_paragraphs"
| "filter_paragraphs (p # ps) filtered_paragraphs =
     (let p_text = strip (text_of p) in
      if p_text \<noteq> [] \<and> length p_text > 20
         \<and> \<not> list_ex (\<lambda>x. str_in x (lower p_text)) denylist
      then filter_paragraphs ps (filtered_paragraphs @ [p_text])
      else filter_paragraphs ps filtered_paragraphs)"

text \<open>The \<open>for selector in container_selectors\<close> loop over the selectors still to try.\<close>

fun containers_loop :: "selector list \<Rightarrow> tag \<Rightarrow> string" where
  "containers_loop [] soup = []"
| "containers_loop (selector # rest) soup =
     (case select_one selector soup of
        None \<Rightarrow> containers_loop rest soup
      | Some container \<Rightarrow>
          if str_in ''Make the most of Premium'' (text_of container)
             \<and> length (text_of container) < 100
          then containers_loop rest soup
          else
            (let paragraphs = select [[TypeSel ''p'']] container in
             if paragraphs \<noteq> []
             then
               (let filtered_paragraphs = filter_paragraphs paragraphs [] in
                if filtered_paragraphs \<noteq> [] then join blank_line filtered_paragraphs
                else containers_loop rest soup)
             else containers_loop rest soup))"

definition extract_from_content_containers :: "TranscriptExtractor \<Rightarrow> tag \<Rightarrow> string" where
  "extract_from_content_containers self soup = containers_loop container_selectors soup"

subsection \<open>Strategy 3: paragraphs after a header\<close>

text \<open>
  \<^verbatim>\<open>h2:contains('Transcript'), h2:contains('Earnings Call'), h3:contains('Transcript'), h3:contains('Earnings Call')\<close>
\<close>

definition header_selector :: selector where
  "header_selector =
     [[TypeSel ''h2'', ContainsSel ''Transcript''],
      [TypeSel ''h2'', ContainsSel ''Earnings Call''],
      [TypeSel ''h3'', ContainsSel ''Transcript''],
      [TypeSel ''h3'', ContainsSel ''Earnings Call'']]"

text \<open>The \<open>while current_elem\<close> loop of \<open>extract_after_header_patterns\<close>.\<close>

function header_walk :: "tag option \<Rightarrow> string list \<Rightarrow> string list" where
  "header_walk None paragraphs = paragraphs"
| "header_walk (Some current_elem) paragraphs =
     header_walk (find_next_sibling current_elem)
       (if name current_elem = ''p''
        then paragraphs @ [strip (text_of current_elem)]
        else paragraphs)"
  by pat_completeness auto
termination
proof (relation "measure (\<lambda>(cur, parts). case cur of None \<Rightarrow> 0 | Some t \<Rightarrow> Suc (siblings_left t))")
  show "wf (measure (\<lambda>(cur, parts). case cur of None \<Rightarrow> 0 | Some t \<Rightarrow> Suc (siblings_left t)))"
    by simp
next
  fix current_elem :: tag and paragraphs :: "string list"
  have fe: "\<And>i cs j. first_elem_from i cs = Some j \<Longrightarrow> i \<le> j \<and> j < i + length cs"
  proof -
    fix i cs j
    show "first_elem_from i cs = Some j \<Longrightarrow> i \<le> j \<and> j < i + length cs"
      by (induction i cs rule: first_elem_from.induct) auto
  qed
  have "case find_next_sibling current_elem of
          None \<Rightarrow> True
        | Some t \<Rightarrow> siblings_left t < siblings_left current_elem"
    by (auto simp: find_next_sibling_def siblings_left_def
          split: option.splits node.splits dest!: fe)
  then show "((find_next_sibling current_elem,
               if name current_elem = ''p''
               then paragraphs @ [strip (text_of current_elem)] else paragraphs),
              (Some current_elem, paragraphs))
             \<in> measure (\<lambda>(cur, parts). case cur of None \<Rightarrow> 0 | Some t \<Rightarrow> Suc (siblings_left t))"
    by (auto split: option.splits)
qed

definition extract_after_header_patterns :: "TranscriptExtractor \<Rightarrow> tag \<Rightarrow> string" where
  "extract_after_header_patterns self soup =
     (case select header_selector soup of
        [] \<Rightarrow> []
      | header # others \<Rightarrow>
          (let paragraphs = header_walk (find_next_sibling header) [] in
           if paragraphs \<noteq> [] then join blank_line paragraphs else []))"

subsection \<open>Strategy 4: script blocks\<close>

text \<open>\<^verbatim>\<open><script[^>]*>(.*?)</script>\<close> with \<open>re.DOTALL\<close>.\<close>

definition script_pattern :: pattern where
  "script_pattern =
     lit ''<script'' @ [(0, Star, NoneOf ''>'')] @ lit ''>'' @ [(1, LazyStar, AnyChar)]
     @ lit ''</script>''"

text \<open>\<^verbatim>\<open>\{[^}]*"transcript"[^}]*\}\<close>\<close>

definition json_pattern :: pattern where
  \<open>json_pattern =
     lit ''{'' @ [(0, Star, NoneOf ''}'')] @ lit ''"transcript"'' @ [(0, Star, NoneOf ''}'')]
     @ lit ''}''\<close>

text \<open>\<^verbatim>\<open>"content"\s*:\s*"([^"]*)"\<close>\<close>

definition content_pattern :: pattern where
  \<open>content_pattern =
     lit ''"content"'' @ [(0, Star, SpaceChar)] @ lit '':'' @ [(0, Star, SpaceChar)]
     @ lit ''"'' @ [(1, Star, NoneOf ''"'')] @ lit ''"''\<close>

text \<open>\<^verbatim>\<open>"text"\s*:\s*"([^"]*)"\<close>\<close>

definition text_pattern :: pattern where
  \<open>text_pattern =
     lit ''"text"'' @ [(0, Star, SpaceChar)] @ lit '':'' @ [(0, Star, SpaceChar)]
     @ lit ''"'' @ [(1, Star, NoneOf ''"'')] @ lit ''"''\<close>

text \<open>
  \<^verbatim>\<open>.replace('\\"', '"').replace('\\n', '\n')\<close>: a backslash and a quote become a
  quote, then a backslash and the letter n become a line feed.
\<close>

definition unescape :: "string \<Rightarrow> string" where
  "unescape s = replace [CHR 0x5C, CHR ''n''] [CHR 0x0A] (replace [CHR 0x5C, CHR 0x22] [CHR 0x22] s)"

text \<open>The \<open>for script in script_matches\<close> loop.\<close>

fun scripts_loop :: "string list \<Rightarrow> string" where
  "scripts_loop [] = []"
| "scripts_loop (script # rest) =
     (case search json_pattern script of
        None \<Rightarrow> scripts_loop rest
      | Some json_match \<Rightarrow>
          (case search content_pattern script of
             Some content_match \<Rightarrow> unescape (group 1 content_match)
           | None \<Rightarrow>
               (case search text_pattern script of
                  Some text_match \<Rightarrow> unescape (group 1 text_match)
                | None \<Rightarrow> scripts_loop rest)))"

definition extract_from_scripts :: "TranscriptExtractor \<Rightarrow> string \<Rightarrow> string" where
  "extract_from_scripts self html_content =
     (let script_matches = map (group 1) (findall script_pattern html_content)
      in scripts_loop script_matches)"

subsection \<open>Strategy 5: preformatted elements\<close>

definition extract_from_pre_elements :: "TranscriptExtractor \<Rightarrow> tag \<Rightarrow> string" where
  "extract_from_pre_elements self soup =
     (let pre_elements = select [[TypeSel ''pre'']] soup in
      if pre_elements \<noteq> []
      then
        (let pre_texts = map (\<lambda>pre. strip (text_of pre))
               (filter (\<lambda>pre. length (strip (text_of pre)) > 500) pre_elements) in
         if pre_texts \<noteq> [] then join blank_line pre_texts else [])
      else [])"

subsection \<open>Strategy 6: speaker pattern\<close>

text \<open>\<^verbatim>\<open><strong>([^<:]+):</strong>([^<]+)\<close> with \<open>re.IGNORECASE\<close>.\<close>

definition speaker_pattern :: pattern where
  "speaker_pattern =
     lit_ignorecase ''<strong>'' @ [(1, Plus, NoneOf ''<:'')] @ lit_ignorecase '':</strong>''
     @ [(2, Plus, NoneOf ''<'')]"

definition extract_transcript_pattern :: "TranscriptExtractor \<Rightarrow> string \<Rightarrow> string" where
  "extract_transcript_pattern self html_content =
     (let matches = map (\<lambda>m. (group 1 m, group 2 m)) (findall speaker_pattern html_content) in
      if matches \<noteq> [] \<and> length matches > 10
      then join blank_line (map (\<lambda>(speaker, text). strip speaker @ '': '' @ strip text) matches)
      else [])"

subsection \<open>The cascade\<close>

definition extract_content :: "TranscriptExtractor \<Rightarrow> tag \<Rightarrow> string \<Rightarrow> string" where
  "extract_content self soup html_content =
     (let content = extract_transcript_sections self soup in
      if content \<noteq> [] \<and> length content > 500 then content else
      let content = extract_from_content_containers self soup in
      if content \<noteq> [] \<and> length content > 500 then content else
      let content = extract_after_header_patterns self soup in
      if content \<noteq> [] \<and> length content > 500 then content else
      let content = extract_from_scripts self html_content in
      if content \<noteq> [] \<and> length content > 500 then content else
      let content = extract_from_pre_elements self soup in
      if content \<noteq> [] \<and> length content > 500 then content else
      let content = extract_transcript_pattern self html_content in
      if content \<noteq> [] \<and> length content > 500 then content else
      let all_paragraphs = select [[TypeSel ''p'']] soup in
      if all_paragraphs \<noteq> []
      then join blank_line
             (map (\<lambda>p. strip (text_of p))
                (filter (\<lambda>p. length (strip (text_of p)) > 20) all_paragraphs))
      else ''Content extraction failed'')"

text \<open>\<open>TranscriptExtractor(debug=...)\<close>.\<close>

definition init :: "bool \<Rightarrow> TranscriptExtractor" where
  "init debug_flag = \<lparr>debug = debug_flag\<rparr>"

subsection \<open>The cascade with its calls recorded\<close>

text \<open>
  The six strategies by name, the order in which \<open>extract_content\<close> calls them, and
  \<open>extract_content\<close> again with the same control flow, returning beside the content
  the list of the strategies it called, in the order of the calls.
  \<open>all_paragraphs_fallback\<close> is the last part of \<open>extract_content\<close> on its own.
\<close>

datatype strategy =
    TranscriptSection | ContentContainer | HeaderAnchored
  | EmbeddedScript | PreformattedBlock | SpeakerPattern

definition strategy_order :: "strategy list" where
  "strategy_order =
     [TranscriptSection, ContentContainer, HeaderAnchored,
      EmbeddedScript, PreformattedBlock, SpeakerPattern]"

fun run_strategy :: "TranscriptExtractor \<Rightarrow> tag \<Rightarrow> string \<Rightarrow> strategy \<Rightarrow> string" where
  "run_strategy self soup html_content TranscriptSection = extract_transcript_sections self soup"
| "run_strategy self soup html_content ContentContainer = extract_from_content_containers self soup"
| "run_strategy self soup html_content HeaderAnchored = extract_after_header_patterns self soup"
| "run_strategy self soup html_content EmbeddedScript = extract_from_scripts self html_content"
| "run_strategy self soup html_content PreformattedBlock = extract_from_pre_elements self soup"
| "run_strategy self soup html_content SpeakerPattern = extract_transcript_pattern self html_content"

definition all_paragraphs_fallback :: "tag \<Rightarrow> string" where
  "all_paragraphs_fallback soup =
     (let all_paragraphs = select [[TypeSel ''p'']] soup in
      if all_paragraphs \<noteq> []
      then join blank_line
             (map (\<lambda>p. strip (text_of p))
                (filter (\<lambda>p. length (strip (text_of p)) > 20) all_paragraphs))
      else ''Content extraction failed'')"

definition extract_content_calls ::
  "TranscriptExtractor \<Rightarrow> tag \<Rightarrow> string \<Rightarrow> strategy list \<times> string" where
  "extract_content_calls self soup html_content =
     (let content = extract_transcript_sections self soup;
          calls = [TranscriptSection] in
      if content \<noteq> [] \<and> length content > 500 then (calls, content) else
      let content = extract_from_content_containers self soup;
          calls = calls @ [ContentContainer] in
      if content \<noteq> [] \<and> length content > 500 then (calls, content) else
      let content = extract_after_header_patterns self soup;
          calls = calls @ [HeaderAnchored] in
      if content \<noteq> [] \<and> length content > 500 then (calls, content) else
      let content = extract_from_scripts self html_content;
          calls = calls @ [EmbeddedScript] in
      if content \<noteq> [] \<and> length content > 500 then (calls, content) else
      let content = extract_from_pre_elements self soup;
          calls = calls @ [PreformattedBlock] in
      if content \<noteq> [] \<and> length content > 500 then (calls, content) else
      let content = extract_transcript_pattern self html_content;
          calls = calls @ [SpeakerPattern] in
      if content \<noteq> [] \<and> length content > 500 then (calls, content) else
      let all_paragraphs = select [[TypeSel ''p'']] soup in
      if all_paragraphs \<noteq> []
      then (calls, join blank_line
             (map (\<lambda>p. strip (text_of p))
                (filter (\<lambda>p. length (strip (text_of p)) > 20) all_paragraphs)))
      else (calls, ''Content extraction failed''))"

section \<open>What the specification says, for comparison\<close>

text \<open>
  The title as the specification words it: the trimmed text of the first matched element
  that is not empty, over the selectors in order, and the sentinel when there is none.
\<close>

definition extract_title_claimed :: "tag \<Rightarrow> string" where
  "extract_title_claimed soup =
     (case filter (\<lambda>s. s \<noteq> [])
             (map (\<lambda>t. strip (text_of t))
                (List.map_filter (\<lambda>selector. select_one selector soup) title_selectors)) of
        [] \<Rightarrow> ''Title not found''
      | x # xs \<Rightarrow> x)"

text \<open>
  A paragraph's trimmed text survives the filter of the content-container strategy, as
  the specification words it: more than 20 characters, and none of the denylist entries
  occurs in the lowercased text.
\<close>

definition survives_claimed :: "string \<Rightarrow> bool" where
  "survives_claimed p_text =
     (length p_text > 20 \<and> (\<forall>x \<in> set denylist. \<not> sublist x (lower p_text)))"

text \<open>
  What the Q&A branch of the transcript-section strategy collects, as the specification
  words it: the trimmed texts of the \<open>div\<close> and \<open>section\<close> elements that follow the
  anchor among its siblings, joined with a blank line.
\<close>

definition qa_collected_claimed :: "tag \<Rightarrow> string" where
  "qa_collected_claimed anchor =
     join blank_line
       (map (\<lambda>t. strip (text_of t))
          (filter (\<lambda>t. name t \<in> set [''div'', ''section'']) (find_next_siblings anchor)))"

section \<open>Example documents\<close>

text \<open>
  Each document is given as the tree and as the markup it is parsed from.
  \<^verbatim>\<open><h1></h1><div class="title">Q3 Results</div>\<close>
\<close>

definition empty_heading_doc :: node where
  "empty_heading_doc =
     Elem ''[document]'' []
       [Elem ''h1'' [] [], Elem ''div'' [(''class'', ''title'')] [Text ''Q3 Results'']]"

text \<open>\<^verbatim>\<open><h1 class="title"> Apple Q3 </h1><h1>Second</h1>\<close>\<close>

definition heading_doc :: node where
  "heading_doc =
     Elem ''[document]'' []
       [Elem ''h1'' [(''class'', ''title'')] [Text '' Apple Q3 ''], Elem ''h1'' [] [Text ''Second'']]"

text \<open>\<^verbatim>\<open><p>short</p>\<close>\<close>

definition short_paragraph_doc :: node where
  "short_paragraph_doc = Elem ''[document]'' [] [Elem ''p'' [] [Text ''short'']]"

definition short_paragraph_html :: string where
  "short_paragraph_html = ''<p>short</p>''"

text \<open>A run of the letter x, to give a text the length an example needs.\<close>

definition filler :: "nat \<Rightarrow> string" where
  "filler n = replicate n CHR ''x''"

text \<open>
  \<^verbatim>\<open><div class="sa-transcript">Intro</div><div id="a-body"><p>xxx...x</p></div>\<close>
  with 600 times the letter x.
\<close>

definition body_doc :: node where
  "body_doc =
     Elem ''[document]'' []
       [Elem ''div'' [(''class'', ''sa-transcript'')] [Text ''Intro''],
        Elem ''div'' [(''id'', ''a-body'')] [Elem ''p'' [] [Text (filler 600)]]]"

definition body_html :: string where
  \<open>body_html =
     ''<div class="sa-transcript">Intro</div><div id="a-body"><p>'' @ filler 600
     @ ''</p></div>''\<close>

text \<open>
  \<^verbatim>\<open><div class="sa-transcript">Block A xxx...x</div><div class="sa-transcript">Block B xxx...x</div>\<close>
  with 300 times the letter x in each block.
\<close>

definition blocks_doc :: node where
  "blocks_doc =
     Elem ''[document]'' []
       [Elem ''div'' [(''class'', ''sa-transcript'')] [Text (''Block A '' @ filler 300)],
        Elem ''div'' [(''class'', ''sa-transcript'')] [Text (''Block B '' @ filler 300)]]"

definition blocks_html :: string where
  \<open>blocks_html =
     ''<div class="sa-transcript">Block A '' @ filler 300
     @ ''</div><div class="sa-transcript">Block B '' @ filler 300 @ ''</div>''\<close>

text \<open>
  \<^verbatim>\<open><div class="paywall-content">Make the most of Premium<p>xxx...x</p></div>\<close>
  with \<open>n\<close> times the letter x: the full text of the container has \<open>24 + n\<close> characters.
\<close>

definition teaser_container :: "nat \<Rightarrow> node" where
  "teaser_container n =
     Elem ''div'' [(''class'', ''paywall-content'')]
       [Text ''Make the most of Premium'', Elem ''p'' [] [Text (filler n)]]"

definition teaser_doc :: "nat \<Rightarrow> node" where
  "teaser_doc n = Elem ''[document]'' [] [teaser_container n]"

text \<open>
  \<^verbatim>\<open><div id="a-body"><p>Revenue grew nine percent this quarter.</p><p>Read more on SEEKING ALPHA today, friends.</p><p>Read more on seeking alpha today, friends.</p><p>Thank you.</p></div>\<close>
\<close>

definition paragraphs_doc :: node where
  "paragraphs_doc =
     Elem ''[document]'' []
       [Elem ''div'' [(''id'', ''a-body'')]
          [Elem ''p'' [] [Text ''Revenue grew nine percent this quarter.''],
           Elem ''p'' [] [Text ''Read more on SEEKING ALPHA today, friends.''],
           Elem ''p'' [] [Text ''Read more on seeking alpha today, friends.''],
           Elem ''p'' [] [Text ''Thank you.'']]]"

text \<open>
  \<^verbatim>\<open><div><h2>Q&A</h2><div>Answer one</div></div><section>Closing remarks</section>\<close>
\<close>

definition qa_doc :: node where
  "qa_doc =
     Elem ''[document]'' []
       [Elem ''div'' []
          [Elem ''h2'' [] [Text ''Q&A''], Elem ''div'' [] [Text ''Answer one'']],
        Elem ''section'' [] [Text ''Closing remarks'']]"

text \<open>
  Three script blocks; the second and the third hold a JSON fragment with the key
  \<open>transcript\<close>:
  \<^verbatim>\<open><script>var a = 1;</script><script type="x">{"transcript": true, "content": "Hello\nWorld"}</script><script>{"transcript": 1, "content": "later"}</script>\<close>
\<close>

definition scripts_html :: string where
  \<open>scripts_html =
     ''<script>var a = 1;</script><script type="x">{"transcript": true, "content": "Hello''
     @ [CHR 0x5C] @ ''nWorld"}</script><script>{"transcript": 1, "content": "later"}</script>''\<close>

text \<open>
  One speaker turn for every letter of \<open>names\<close>:
  \<^verbatim>\<open><strong>A:</strong> hi <strong>B:</strong> hi ...\<close>
\<close>

definition speaker_html :: "string \<Rightarrow> string" where
  "speaker_html names = concat (map (\<lambda>c. ''<strong>'' @ [c] @ '':</strong> hi '') names)"

section \<open>Properties\<close>

subsection \<open>Strings\<close>

lemma str_in_sublist: "str_in sub s = sublist sub s"
  by (induction s) (auto simp: sublist_Cons_right)

lemma str_in_set: "str_in sub s \<Longrightarrow> set sub \<subseteq> set s"
  by (auto simp: str_in_sublist dest: set_mono_sublist)

lemma length_filler: "length (filler n) = n"
  by (simp add: filler_def)

lemma strip_filler: "strip (filler n) = filler n"
  by (simp add: strip_def filler_def isspace_def whitespace_def)

lemma lower_filler: "lower (filler n) = filler n"
  by (simp add: lower_def filler_def lower_char_def uppers_def lowers_def)

lemma str_in_filler: "\<not> set sub \<subseteq> {CHR ''x''} \<Longrightarrow> \<not> str_in sub (filler n)"
proof
  assume "\<not> set sub \<subseteq> {CHR ''x''}" and "str_in sub (filler n)"
  then have "set sub \<subseteq> set (filler n)" by (simp add: str_in_set)
  also have "set (filler n) \<subseteq> {CHR ''x''}" by (auto simp: filler_def)
  finally show False using \<open>\<not> set sub \<subseteq> {CHR ''x''}\<close> by simp
qed

lemma filler_empty: "(filler n = []) = (n = 0)"
  by (simp add: filler_def)

lemma gate_nonempty: "(c \<noteq> [] \<and> length c > 500) = (length c > 500)" for c :: string
  by auto

lemmas eval_dom = select_def select_one_def matches_def text_of_def name_def parent_def
  find_next_sibling_def

lemmas eval_str = strip_def isspace_def whitespace_def lower_def lower_char_def uppers_def
  lowers_def blank_line_def

lemma body_doc_sections:
  "extract_transcript_sections self (body_doc, []) = ''Intro''"
  by (simp add: extract_transcript_sections_def transcript_section_selector_def body_doc_def
        eval_dom eval_str)

lemma body_doc_containers:
  "extract_from_content_containers self (body_doc, []) = filler 600"
  by (simp add: extract_from_content_containers_def container_selectors_def body_doc_def
        eval_dom strip_filler lower_filler length_filler str_in_filler denylist_def Let_def
        filler_empty)


subsection \<open>Document order\<close>

text \<open>\<open>select\<close> returns its matches in document order.\<close>

lemma descendants_paths:
  "(p, e) \<in> set (descendants n) \<Longrightarrow> p \<noteq> []"
  "(p, e) \<in> set (descendants_from i cs) \<Longrightarrow> \<exists>j q. p = j # q \<and> i \<le> j"
  by (induction n and i cs arbitrary: p e and p e rule: descendants_descendants_from.induct)
     (fastforce split: node.splits)+

lemma descendants_sorted:
  "sorted_wrt doc_before (map fst (descendants n))"
  "sorted_wrt doc_before (map fst (descendants_from i cs))"
proof (induction n and i cs rule: descendants_descendants_from.induct)
  case (4 i c cs)
  have later: "doc_before (i # p) q" if "(q, e) \<in> set (descendants_from (Suc i) cs)" for p q e
    using descendants_paths(2) [OF that] by (auto simp: doc_before_def)
  show ?case
  proof (cases c)
    case (Text s)
    with 4 show ?thesis by simp
  next
    case (Elem nm at ds)
    have inner: "sorted_wrt doc_before (map fst (map (\<lambda>(p, n). (i # p, n)) (descendants c)))"
      using 4(1) [OF Elem]
      by (simp add: sorted_wrt_map doc_before_def case_prod_unfold)
    have first: "doc_before [i] (i # p)" if "(p, e) \<in> set (descendants c)" for p e
      using descendants_paths(1) [OF that] by (cases p) (auto simp: doc_before_def)
    from Elem inner first later 4(2) show ?thesis
      by (auto simp: sorted_wrt_append)
  qed
qed simp_all

lemma select_document_order:
  "sorted_wrt (\<lambda>s t. doc_before (snd s) (snd t)) (select sel t)"
proof (cases "node_at (fst t) (snd t)")
  case None
  then show ?thesis by (simp add: select_def)
next
  case (Some n)
  let ?found = "filter (\<lambda>(p, e). matches sel e) (descendants n)"
  have "sorted_wrt (\<lambda>x y. doc_before (fst x) (fst y)) ?found"
    using descendants_sorted(1) [of n]
    by (simp add: sorted_wrt_map sorted_wrt_filter)
  then have "sorted_wrt (\<lambda>x y. doc_before (snd t @ fst x) (snd t @ fst y)) ?found"
    by (rule sorted_wrt_mono_rel [rotated]) (simp add: doc_before_def lexord_append_leftI)
  with Some show ?thesis
    by (simp add: select_def sorted_wrt_map case_prod_unfold)
qed

subsection \<open>The cascade\<close>

lemma extract_content_calls_snd:
  "snd (extract_content_calls self soup html) = extract_content self soup html"
  by (simp add: extract_content_calls_def extract_content_def Let_def)

text \<open>
  C1. \<open>extract_content\<close> calls the strategies in the fixed order transcript section,
  content container, header anchored, embedded script, preformatted block, speaker
  pattern. The calls it makes are an initial piece of that order: every strategy called
  before the last one gave a result of at most 500 characters and was passed over; the
  result of the last strategy called is returned exactly when it is longer than 500
  characters, and then no later strategy is called; otherwise the last call is the sixth
  and the content comes from the all-paragraphs fallback.
\<close>

theorem cascade_order:
  "\<exists>pre s post.
     strategy_order = pre @ s # post
     \<and> fst (extract_content_calls self soup html) = pre @ [s]
     \<and> (\<forall>x \<in> set pre. length (run_strategy self soup html x) \<le> 500)
     \<and> (if length (run_strategy self soup html s) > 500
        then snd (extract_content_calls self soup html) = run_strategy self soup html s
        else post = [] \<and> snd (extract_content_calls self soup html) = all_paragraphs_fallback soup)
     \<and> snd (extract_content_calls self soup html) = extract_content self soup html"
proof -
  let ?r = "run_strategy self soup html"
  consider
      (a) "length (?r TranscriptSection) > 500"
    | (b) "length (?r TranscriptSection) \<le> 500" "length (?r ContentContainer) > 500"
    | (c) "length (?r TranscriptSection) \<le> 500" "length (?r ContentContainer) \<le> 500"
          "length (?r HeaderAnchored) > 500"
    | (d) "length (?r TranscriptSection) \<le> 500" "length (?r ContentContainer) \<le> 500"
          "length (?r HeaderAnchored) \<le> 500" "length (?r EmbeddedScript) > 500"
    | (e) "length (?r TranscriptSection) \<le> 500" "length (?r ContentContainer) \<le> 500"
          "length (?r HeaderAnchored) \<le> 500" "length (?r EmbeddedScript) \<le> 500"
          "length (?r PreformattedBlock) > 500"
    | (f) "length (?r TranscriptSection) \<le> 500" "length (?r ContentContainer) \<le> 500"
          "length (?r HeaderAnchored) \<le> 500" "length (?r EmbeddedScript) \<le> 500"
          "length (?r PreformattedBlock) \<le> 500"
    by linarith
  then show ?thesis
  proof cases
    case a
    then show ?thesis
      by (intro exI[of _ "[]"] exI[of _ TranscriptSection] exI[of _ "tl strategy_order"])
         (simp add: gate_nonempty strategy_order_def extract_content_calls_def extract_content_def Let_def)
  next
    case b
    then show ?thesis
      by (intro exI[of _ "[TranscriptSection]"] exI[of _ ContentContainer]
            exI[of _ "drop 2 strategy_order"])
         (simp add: gate_nonempty strategy_order_def extract_content_calls_def extract_content_def Let_def)
  next
    case c
    then show ?thesis
      by (intro exI[of _ "[TranscriptSection, ContentContainer]"] exI[of _ HeaderAnchored]
            exI[of _ "drop 3 strategy_order"])
         (simp add: gate_nonempty strategy_order_def extract_content_calls_def extract_content_def Let_def)
  next
    case d
    then show ?thesis
      by (intro exI[of _ "[TranscriptSection, ContentContainer, HeaderAnchored]"]
            exI[of _ EmbeddedScript] exI[of _ "drop 4 strategy_order"])
         (simp add: gate_nonempty strategy_order_def extract_content_calls_def extract_content_def Let_def)
  next
    case e
    then show ?thesis
      by (intro exI[of _ "[TranscriptSection, ContentContainer, HeaderAnchored, EmbeddedScript]"]
            exI[of _ PreformattedBlock] exI[of _ "drop 5 strategy_order"])
         (simp add: gate_nonempty strategy_order_def extract_content_calls_def extract_content_def Let_def)
  next
    case f
    then show ?thesis
      by (intro exI[of _ "[TranscriptSection, ContentContainer, HeaderAnchored, EmbeddedScript,
              PreformattedBlock]"]
            exI[of _ SpeakerPattern] exI[of _ "[]"])
         (simp add: gate_nonempty strategy_order_def extract_content_calls_def extract_content_def Let_def
            all_paragraphs_fallback_def)
  qed
qed

theorem cascade_order_witness:
  "fst (extract_content_calls (init False) (body_doc, []) body_html)
     = [TranscriptSection, ContentContainer]
   \<and> length (run_strategy (init False) (body_doc, []) body_html TranscriptSection) \<le> 500
   \<and> length (run_strategy (init False) (body_doc, []) body_html ContentContainer) > 500
   \<and> extract_content (init False) (body_doc, []) body_html = filler 600"
proof -
  let ?r = "run_strategy (init False) (body_doc, []) body_html"
  let ?c = "extract_content_calls (init False) (body_doc, []) body_html"
  have calls: "fst ?c = [TranscriptSection, ContentContainer]"
    by (simp add: extract_content_calls_def body_doc_sections body_doc_containers length_filler
          filler_empty Let_def)
  from cascade_order [of "init False" "(body_doc, [])" body_html]
  obtain pre s post where
    order: "strategy_order = pre @ s # post" and
    split: "fst ?c = pre @ [s]" and
    passed: "\<forall>x \<in> set pre. length (?r x) \<le> 500" and
    last: "if length (?r s) > 500 then snd ?c = ?r s
           else post = [] \<and> snd ?c = all_paragraphs_fallback (body_doc, [])" and
    same: "snd ?c = extract_content (init False) (body_doc, []) body_html"
    by blast
  from split calls have pre: "pre = [TranscriptSection]" and s: "s = ContentContainer"
    by (auto simp: append_eq_Cons_conv Cons_eq_append_conv)
  have long: "length (?r ContentContainer) > 500"
    by (simp add: body_doc_containers length_filler)
  from passed pre have "length (?r TranscriptSection) \<le> 500" by simp
  moreover from last s long same
  have "extract_content (init False) (body_doc, []) body_html = filler 600"
    by (simp add: body_doc_containers)
  ultimately show ?thesis using calls long by simp
qed

text \<open>
  C2. The content is claimed never to be empty. On a document whose only paragraph is
  \<open>short\<close> no strategy finds anything, the fallback finds a paragraph, drops it for
  having at most 20 characters and joins the empty list: the content is the empty
  string, not the sentinel.
\<close>

theorem short_paragraph_empty_content:
  "extract_content (init False) (short_paragraph_doc, []) short_paragraph_html = []"
  by code_simp

subsection \<open>The title\<close>

text \<open>
  C8, as stated. A first heading without text is passed over by the title as the
  specification words it, which goes on to the element of class \<open>title\<close>;
  \<open>extract_title\<close> returns the empty text of the heading.
\<close>

theorem extract_title_empty_heading:
  "extract_title (init False) (empty_heading_doc, []) = []
   \<and> extract_title_claimed (empty_heading_doc, []) = ''Q3 Results''"
  by (simp add: extract_title_def extract_title_claimed_def title_selectors_def
        empty_heading_doc_def eval_dom eval_str List.map_filter_simps)

lemma extract_title_loop_first:
  "extract_title_loop sels soup =
     (case List.map_filter (\<lambda>selector. select_one selector soup) sels of
        [] \<Rightarrow> ''Title not found''
      | t # ts \<Rightarrow> strip (text_of t))"
  by (induction sels) (auto simp: List.map_filter_simps split: option.splits)

text \<open>
  C8, amended. \<open>extract_title\<close> tries the four selectors in order and returns the
  trimmed text of the first element that the first matching selector selects, empty or
  not; it returns \<open>Title not found\<close> only when no selector matches any element.
\<close>

theorem extract_title_first_match:
  "extract_title self soup =
     (case List.map_filter (\<lambda>selector. select_one selector soup) title_selectors of
        [] \<Rightarrow> ''Title not found''
      | title_elem # others \<Rightarrow> strip (text_of title_elem))"
  by (simp add: extract_title_def extract_title_loop_first)

theorem extract_title_first_match_witness:
  "extract_title (init False) (heading_doc, []) = ''Apple Q3''"
proof -
  have "List.map_filter (\<lambda>selector. select_one selector (heading_doc, [])) title_selectors
        = [(heading_doc, [0]), (heading_doc, [0]), (heading_doc, [0])]"
    by (simp add: title_selectors_def heading_doc_def eval_dom eval_str List.map_filter_simps)
  moreover have "strip (text_of (heading_doc, [0])) = ''Apple Q3''"
    by (simp add: heading_doc_def eval_dom eval_str)
  ultimately show ?thesis
    using extract_title_first_match [of "init False" "(heading_doc, [])"] by simp
qed

subsection \<open>The transcript sections\<close>

lemma strip_keeps:
  "s \<noteq> [] \<Longrightarrow> \<not> isspace (hd s) \<Longrightarrow> \<not> isspace (last s) \<Longrightarrow> strip s = s"
proof -
  assume "s \<noteq> []" and "\<not> isspace (hd s)" and "\<not> isspace (last s)"
  then have "dropWhile isspace s = s" and "dropWhile isspace (rev s) = rev s"
    by (simp_all add: dropWhile_eq_self_iff hd_rev)
  then show ?thesis by (simp add: strip_def)
qed

lemma last_filler: "0 < n \<Longrightarrow> last (filler n) = CHR ''x''"
  by (simp add: filler_def)

lemma blocks_doc_sections:
  "map (\<lambda>section. strip (text_of section)) (select transcript_section_selector (blocks_doc, []))
     = [''Block A '' @ filler 300, ''Block B '' @ filler 300]"
proof -
  have "strip (''Block A '' @ filler 300) = ''Block A '' @ filler 300"
    by (rule strip_keeps) (simp_all add: last_filler filler_empty isspace_def whitespace_def)
  moreover have "strip (''Block B '' @ filler 300) = ''Block B '' @ filler 300"
    by (rule strip_keeps) (simp_all add: last_filler filler_empty isspace_def whitespace_def)
  ultimately show ?thesis
    by (simp add: transcript_section_selector_def blocks_doc_def eval_dom isspace_def
          whitespace_def)
qed

text \<open>
  C3. When the transcript-section selector matches at least one element and the trimmed
  texts of the matched elements, joined in document order with a blank line between
  them, have more than 500 characters, the content is exactly that join.
\<close>

theorem transcript_sections_verbatim:
  assumes "select transcript_section_selector soup \<noteq> []"
    and "length (join blank_line
           (map (\<lambda>section. strip (text_of section))
              (select transcript_section_selector soup))) > 500"
  shows "extract_content self soup html_content =
     join blank_line
       (map (\<lambda>section. strip (text_of section)) (select transcript_section_selector soup))"
proof -
  from assms(1) have "extract_transcript_sections self soup =
     join blank_line
       (map (\<lambda>section. strip (text_of section)) (select transcript_section_selector soup))"
    by (simp add: extract_transcript_sections_def)
  with assms(2) show ?thesis
    by (simp add: extract_content_def gate_nonempty)
qed

theorem transcript_sections_verbatim_witness:
  "select transcript_section_selector (blocks_doc, []) \<noteq> []
   \<and> length (''Block A '' @ filler 300 @ blank_line @ ''Block B '' @ filler 300) > 500
   \<and> extract_content (init False) (blocks_doc, []) blocks_html
       = ''Block A '' @ filler 300 @ blank_line @ ''Block B '' @ filler 300"
proof -
  let ?texts = "map (\<lambda>section. strip (text_of section))
                  (select transcript_section_selector (blocks_doc, []))"
  have found: "select transcript_section_selector (blocks_doc, []) \<noteq> []"
    using blocks_doc_sections by auto
  have joined: "join blank_line ?texts
      = ''Block A '' @ filler 300 @ blank_line @ ''Block B '' @ filler 300"
    by (simp add: blocks_doc_sections)
  have long: "length (join blank_line ?texts) > 500"
    by (simp add: joined length_filler)
  from transcript_sections_verbatim [OF found long, of "init False" blocks_html] joined long found
  show ?thesis by simp
qed

subsection \<open>The extractor object\<close>

text \<open>
  No strategy reads \<open>self.debug\<close>: the content is the same on every extractor object.
\<close>

lemma extract_content_ignores_self:
  "extract_content self1 soup html_content = extract_content self2 soup html_content"
  unfolding extract_content_def extract_transcript_sections_def
    extract_from_content_containers_def extract_after_header_patterns_def
    extract_from_scripts_def extract_from_pre_elements_def extract_transcript_pattern_def
  by (rule refl)

subsection \<open>The content containers\<close>

lemma filter_paragraphs_acc:
  "filter_paragraphs ps acc =
     acc @ filter (\<lambda>t. length t > 20 \<and> \<not> list_ex (\<lambda>x. str_in x (lower t)) denylist)
             (map (\<lambda>p. strip (text_of p)) ps)"
  by (induction ps arbitrary: acc) (auto simp: Let_def)

lemma survives_claimed_code:
  "survives_claimed t = (length t > 20 \<and> \<not> list_ex (\<lambda>x. str_in x (lower t)) denylist)"
  by (auto simp: survives_claimed_def str_in_sublist list_ex_iff)

lemma sublist_lower: "sublist x t \<Longrightarrow> sublist (lower x) (lower t)"
proof -
  assume "sublist x t"
  then obtain ps ss where "t = ps @ x @ ss" by (auto simp: sublist_def)
  then have "lower t = lower ps @ lower x @ lower ss" by (simp add: lower_def)
  then show ?thesis by simp
qed

text \<open>
  C6. The paragraphs kept by the filter of the content-container strategy are, in order,
  the trimmed texts that have more than 20 characters and whose lowercased form contains
  none of the seven denylist entries. The test ignores case: a text that contains an
  entry in any mix of cases is dropped, so one containing \<open>SEEKING ALPHA\<close> is dropped
  as one containing \<open>seeking alpha\<close> is.
\<close>

theorem paragraph_survives:
  "filter_paragraphs ps [] = filter survives_claimed (map (\<lambda>p. strip (text_of p)) ps)
   \<and> (lower x \<in> set denylist \<and> sublist x t \<longrightarrow> \<not> survives_claimed t)
   \<and> (sublist ''SEEKING ALPHA'' t \<longrightarrow> \<not> survives_claimed t)
   \<and> (sublist ''seeking alpha'' t \<longrightarrow> \<not> survives_claimed t)"
proof -
  have list: "filter_paragraphs ps [] = filter survives_claimed (map (\<lambda>p. strip (text_of p)) ps)"
    by (simp add: filter_paragraphs_acc survives_claimed_code [abs_def])
  have deny: "\<not> survives_claimed u" if "lower y \<in> set denylist" and "sublist y u" for y u
    using that sublist_lower [of y u] by (auto simp: survives_claimed_def)
  have "lower ''SEEKING ALPHA'' = ''seeking alpha''" and "lower ''seeking alpha'' = ''seeking alpha''"
    by (simp_all add: eval_str)
  then have "lower ''SEEKING ALPHA'' \<in> set denylist" and "lower ''seeking alpha'' \<in> set denylist"
    by (simp_all add: denylist_def)
  with list deny show ?thesis by blast
qed

theorem paragraph_survives_witness:
  "filter_paragraphs (select [[TypeSel ''p'']] (paragraphs_doc, [])) []
     = [''Revenue grew nine percent this quarter.'']
   \<and> sublist ''SEEKING ALPHA'' ''Read more on SEEKING ALPHA today, friends.''
   \<and> \<not> survives_claimed ''Read more on SEEKING ALPHA today, friends.''
   \<and> sublist ''seeking alpha'' ''Read more on seeking alpha today, friends.''
   \<and> \<not> survives_claimed ''Read more on seeking alpha today, friends.''"
proof -
  let ?ps = "select [[TypeSel ''p'']] (paragraphs_doc, [])"
  have texts: "map (\<lambda>p. strip (text_of p)) ?ps =
      [''Revenue grew nine percent this quarter.'',
       ''Read more on SEEKING ALPHA today, friends.'',
       ''Read more on seeking alpha today, friends.'',
       ''Thank you.'']"
    by (simp add: paragraphs_doc_def eval_dom strip_def isspace_def whitespace_def)
  have up: "sublist ''SEEKING ALPHA'' ''Read more on SEEKING ALPHA today, friends.''"
    by (simp flip: str_in_sublist)
  have low: "sublist ''seeking alpha'' ''Read more on seeking alpha today, friends.''"
    by (simp flip: str_in_sublist)
  have keep: "survives_claimed ''Revenue grew nine percent this quarter.''"
    by (simp add: survives_claimed_code denylist_def eval_str)
  have short: "\<not> survives_claimed ''Thank you.''"
    by (simp add: survives_claimed_def)
  note inst1 = paragraph_survives [of ?ps "''SEEKING ALPHA''"
      "''Read more on SEEKING ALPHA today, friends.''"]
  note inst2 = paragraph_survives [of ?ps "''seeking alpha''"
      "''Read more on seeking alpha today, friends.''"]
  from inst1 up have no_up: "\<not> survives_claimed ''Read more on SEEKING ALPHA today, friends.''"
    by blast
  from inst2 low have no_low: "\<not> survives_claimed ''Read more on seeking alpha today, friends.''"
    by blast
  from inst1 have "filter_paragraphs ?ps [] = filter survives_claimed (map (\<lambda>p. strip (text_of p)) ?ps)"
    by blast
  with texts keep short no_up no_low
  have "filter_paragraphs ?ps [] = [''Revenue grew nine percent this quarter.'']"
    by simp
  with up low no_up no_low show ?thesis by blast
qed

text \<open>
  C5. In the loop of the content-container strategy a found container is passed over,
  whatever its paragraphs, exactly when its full text contains \<open>Make the most of Premium\<close>
  and has fewer than 100 characters; any other found container is accepted, and its
  surviving paragraphs, when there are any, are the result. A teaser container of 95
  characters is skipped; the same container with 100 or 104 characters is accepted.
\<close>

theorem teaser_container_skipped:
  assumes "select_one selector soup = Some container"
  shows "containers_loop (selector # rest) soup =
     (if sublist ''Make the most of Premium'' (text_of container)
         \<and> length (text_of container) < 100
      then containers_loop rest soup
      else if filter survives_claimed
                (map (\<lambda>p. strip (text_of p)) (select [[TypeSel ''p'']] container)) \<noteq> []
      then join blank_line
             (filter survives_claimed
                (map (\<lambda>p. strip (text_of p)) (select [[TypeSel ''p'']] container)))
      else containers_loop rest soup)"
  using assms
  by (simp add: str_in_sublist filter_paragraphs_acc survives_claimed_code [abs_def] Let_def)

lemma teaser_doc_container:
  "select_one [[ClassSel ''paywall-content'']] (teaser_doc n, []) = Some (teaser_doc n, [0])"
  by (simp add: teaser_doc_def teaser_container_def eval_dom isspace_def whitespace_def)

lemma teaser_doc_text:
  "text_of (teaser_doc n, [0]) = ''Make the most of Premium'' @ filler n"
  by (simp add: teaser_doc_def teaser_container_def eval_dom)

lemma teaser_doc_paragraphs:
  "map (\<lambda>p. strip (text_of p)) (select [[TypeSel ''p'']] (teaser_doc n, [0])) = [filler n]"
  by (simp add: teaser_doc_def teaser_container_def eval_dom strip_filler)

lemma filler_survives: "survives_claimed (filler n) = (20 < n)"
  by (simp add: survives_claimed_code denylist_def lower_filler length_filler str_in_filler)

lemma teaser_doc_loop:
  "extract_from_content_containers self (teaser_doc n, [])
     = containers_loop ([[ClassSel ''paywall-content'']] # drop 2 container_selectors) (teaser_doc n, [])"
  by (simp add: extract_from_content_containers_def container_selectors_def teaser_doc_def
        teaser_container_def eval_dom isspace_def whitespace_def)

lemma teaser_doc_rest:
  "containers_loop (drop 2 container_selectors) (teaser_doc n, []) = []"
  by (simp add: container_selectors_def teaser_doc_def
        teaser_container_def eval_dom isspace_def whitespace_def)

theorem teaser_container_skipped_witness:
  "length (text_of (teaser_doc 71, [0])) = 95
   \<and> extract_from_content_containers (init False) (teaser_doc 71, []) = []
   \<and> length (text_of (teaser_doc 80, [0])) = 104
   \<and> extract_from_content_containers (init False) (teaser_doc 80, []) = filler 80
   \<and> length (text_of (teaser_doc 76, [0])) = 100
   \<and> extract_from_content_containers (init False) (teaser_doc 76, []) = filler 76"
proof -
  have phrase: "sublist ''Make the most of Premium'' (text_of (teaser_doc n, [0]))" for n
    by (simp add: teaser_doc_text)
  have len: "length (text_of (teaser_doc n, [0])) = 24 + n" for n
    by (simp add: teaser_doc_text length_filler)
  have run: "extract_from_content_containers (init False) (teaser_doc n, []) =
      (if 24 + n < 100 then [] else if 20 < n then filler n else [])" for n
    using teaser_container_skipped [OF teaser_doc_container [of n], of "drop 2 container_selectors"]
    by (simp add: teaser_doc_loop teaser_doc_rest teaser_doc_paragraphs filler_survives phrase len)
  show ?thesis
    by (simp add: run len)
qed

subsection \<open>The walk from a Q&A header\<close>

lemma first_elem_from_None:
  "first_elem_from i (drop i cs) = None \<Longrightarrow> filter (\<lambda>j. is_elem (cs ! j)) [i..<length cs] = []"
proof (induction "length cs - i" arbitrary: i)
  case 0
  then show ?case by simp
next
  case (Suc k)
  then have lt: "i < length cs" by simp
  then have d: "drop i cs = cs ! i # drop (Suc i) cs" by (simp add: Cons_nth_drop_Suc)
  from Suc.prems d obtain s where t: "cs ! i = Text s"
    by (cases "cs ! i") auto
  with Suc.prems d have "first_elem_from (Suc i) (drop (Suc i) cs) = None" by simp
  moreover from Suc.hyps(2) have "k = length cs - Suc i" by simp
  ultimately have "filter (\<lambda>j. is_elem (cs ! j)) [Suc i..<length cs] = []"
    by (rule Suc.hyps(1) [rotated])
  then have rest: "filter (\<lambda>j. is_elem (cs ! j)) [Suc i..<length cs] = []" .
  from lt have "[i..<length cs] = i # [Suc i..<length cs]" by (rule upt_conv_Cons)
  with rest t show ?case by simp
qed

lemma first_elem_from_Some:
  "first_elem_from i (drop i cs) = Some j \<Longrightarrow>
     i \<le> j \<and> j < length cs
     \<and> filter (\<lambda>j. is_elem (cs ! j)) [i..<length cs]
         = j # filter (\<lambda>j. is_elem (cs ! j)) [Suc j..<length cs]"
proof (induction "length cs - i" arbitrary: i)
  case 0
  then show ?case by simp
next
  case (Suc k)
  then have lt: "i < length cs" by simp
  then have d: "drop i cs = cs ! i # drop (Suc i) cs" by (simp add: Cons_nth_drop_Suc)
  from lt have u: "[i..<length cs] = i # [Suc i..<length cs]" by (rule upt_conv_Cons)
  show ?case
  proof (cases "cs ! i")
    case (Text s)
    with Suc.prems d have "first_elem_from (Suc i) (drop (Suc i) cs) = Some j" by simp
    moreover from Suc.hyps(2) have "k = length cs - Suc i" by simp
    ultimately have "Suc i \<le> j \<and> j < length cs
       \<and> filter (\<lambda>j. is_elem (cs ! j)) [Suc i..<length cs]
           = j # filter (\<lambda>j. is_elem (cs ! j)) [Suc j..<length cs]"
      by (rule Suc.hyps(1) [rotated])
    with u Text show ?thesis by simp
  next
    case (Elem nm at ds)
    with Suc.prems d have "j = i" by simp
    with lt u Elem show ?thesis by simp
  qed
qed

lemma find_next_sibling_None:
  "find_next_sibling t = None \<Longrightarrow> find_next_siblings t = []"
  by (auto simp: find_next_sibling_def find_next_siblings_def
        split: if_splits option.splits node.splits dest: first_elem_from_None)

lemma find_next_sibling_Some:
  "find_next_sibling t = Some t' \<Longrightarrow> find_next_siblings t = t' # find_next_siblings t'"
  by (auto simp: find_next_sibling_def find_next_siblings_def
        split: if_splits option.splits node.splits dest!: first_elem_from_Some)

lemma qa_walk_siblings:
  "qa_walk cur acc =
     acc @ map (\<lambda>t. strip (text_of t))
             (filter (\<lambda>t. name t \<in> set [''div'', ''section''])
                (case cur of None \<Rightarrow> [] | Some t \<Rightarrow> t # find_next_siblings t))"
proof (induction cur acc rule: qa_walk.induct)
  case (1 content_parts)
  show ?case by simp
next
  case (2 current_section content_parts)
  show ?case
  proof (cases "find_next_sibling current_section")
    case None
    with 2 show ?thesis by (simp add: find_next_sibling_None)
  next
    case (Some t')
    with 2 show ?thesis by (simp add: find_next_sibling_Some)
  qed
qed

lemma join_Nil_iff: "xs \<noteq> [] \<or> join sep xs = []"
  by (cases xs) auto

text \<open>
  C10, amended. When no transcript-section element matches and the Q&A selector matches,
  the strategy starts at the parent of the first match: it collects the trimmed text of
  that parent, if the parent is a \<open>div\<close> or a \<open>section\<close>, and of every following
  sibling element of the parent that is a \<open>div\<close> or a \<open>section\<close>, in document
  order, and joins them with blank lines. The siblings of the match itself are reached
  only as part of the parent's text.
\<close>

theorem qa_walk_from_parent:
  assumes "select transcript_section_selector soup = []"
    and "select qa_selector soup = anchor # others"
  shows "extract_transcript_sections self soup =
     join blank_line
       (map (\<lambda>t. strip (text_of t))
          (filter (\<lambda>t. name t \<in> set [''div'', ''section''])
             (case parent anchor of
                None \<Rightarrow> []
              | Some container \<Rightarrow> container # find_next_siblings container)))"
  using assms join_Nil_iff
  by (simp add: extract_transcript_sections_def qa_walk_siblings Let_def del: set_simps)


text \<open>
  C10, as stated. The anchor \<open>h2\<close> has one following sibling, a \<open>div\<close> with the
  text \<open>Answer one\<close>, which is all the claim collects. The strategy returns the text of
  the enclosing \<open>div\<close>, heading included, and of the \<open>section\<close> after it.
\<close>

theorem qa_collects_parent_text:
  "select transcript_section_selector (qa_doc, []) = []
   \<and> select qa_selector (qa_doc, []) = [(qa_doc, [0, 0])]
   \<and> extract_transcript_sections (init False) (qa_doc, [])
       = ''Q&AAnswer one'' @ blank_line @ ''Closing remarks''
   \<and> qa_collected_claimed (qa_doc, [0, 0]) = ''Answer one''"
  by (simp add: extract_transcript_sections_def qa_collected_claimed_def
        transcript_section_selector_def qa_selector_def qa_doc_def find_next_siblings_def
        eval_dom strip_def isspace_def whitespace_def)

theorem qa_walk_from_parent_witness:
  "select transcript_section_selector (qa_doc, []) = []
   \<and> select qa_selector (qa_doc, []) = [(qa_doc, [0, 0])]
   \<and> parent (qa_doc, [0, 0]) = Some (qa_doc, [0])
   \<and> find_next_siblings (qa_doc, [0]) = [(qa_doc, [1])]
   \<and> extract_transcript_sections (init False) (qa_doc, [])
       = ''Q&AAnswer one'' @ blank_line @ ''Closing remarks''"
proof -
  have none: "select transcript_section_selector (qa_doc, []) = []"
    by (simp add: transcript_section_selector_def qa_doc_def eval_dom)
  have anchor: "select qa_selector (qa_doc, []) = [(qa_doc, [0, 0])]"
    by (simp add: qa_selector_def qa_doc_def eval_dom)
  have par: "parent (qa_doc, [0, 0]) = Some (qa_doc, [0])"
    by (simp add: parent_def)
  have sibs: "find_next_siblings (qa_doc, [0]) = [(qa_doc, [1])]"
    by (simp add: find_next_siblings_def qa_doc_def)
  have names: "name (qa_doc, [0]) = ''div''" "name (qa_doc, [1]) = ''section''"
    by (simp_all add: name_def qa_doc_def)
  have texts: "strip (text_of (qa_doc, [0])) = ''Q&AAnswer one''"
    "strip (text_of (qa_doc, [1])) = ''Closing remarks''"
    by (simp_all add: text_of_def qa_doc_def strip_def isspace_def whitespace_def)
  from qa_walk_from_parent [OF none anchor, of "init False"]
  have "extract_transcript_sections (init False) (qa_doc, [])
      = ''Q&AAnswer one'' @ blank_line @ ''Closing remarks''"
    by (simp add: par sibs names texts del: One_nat_def)
  with none anchor par sibs show ?thesis by simp
qed

subsection \<open>Regular expressions\<close>

lemma match_here_consumes:
  "match_here pat s = Some (m, rest) \<Longrightarrow> s = map snd m @ rest"
  by (induction pat s arbitrary: m rest rule: match_here.induct)
     (auto split: if_splits option.splits)

lemma match_here_classes:
  "match_here pat s = Some (m, rest) \<Longrightarrow> (g, c) \<in> set m \<Longrightarrow>
     \<exists>q cl. (g, q, cl) \<in> set pat \<and> in_class cl c"
  by (induction pat s arbitrary: m rest rule: match_here.induct)
     (fastforce split: if_splits option.splits)+

lemma match_here_once:
  "match_here pat s = Some (m, rest) \<Longrightarrow> (g, q, cl) \<in> set pat \<Longrightarrow> q = One \<or> q = Plus \<Longrightarrow>
     \<exists>c. (g, c) \<in> set m"
  by (induction pat s arbitrary: m rest rule: match_here.induct)
     (fastforce split: if_splits option.splits)+

lemma findall_from_in_order:
  "subseq (concat (map (map snd) (findall_from pat k s))) (drop k s)"
proof (induction pat k s rule: findall_from.induct)
  case (4 pat c cs)
  show ?case
  proof (cases "match_here pat (c # cs)")
    case None
    with 4 show ?thesis by (auto intro: subseq_Cons')
  next
    case (Some res)
    obtain m rest where res: "res = (m, rest)" by (cases res)
    with Some have eq: "c # cs = map snd m @ rest" by (auto dest: match_here_consumes)
    from 4(2) [OF Some res [symmetric]]
    have ih: "subseq (concat (map (map snd) (findall_from pat (length m - 1) cs)))
                (drop (length m - 1) cs)" by simp
    show ?thesis
    proof (cases m)
      case Nil
      with ih Some res show ?thesis by (auto intro: subseq_Cons')
    next
      case (Cons a m')
      with eq have "drop (length m - 1) cs = rest" by simp
      with ih have "subseq (map snd m @ concat (map (map snd) (findall_from pat (length m - 1) cs)))
                      (map snd m @ rest)"
        by (simp add: list_emb_append_mono)
      then have "subseq (concat (map (map snd) (m # findall_from pat (length m - 1) cs))) (c # cs)"
        by (simp add: eq)
      moreover from Some res
      have "findall_from pat 0 (c # cs) = m # findall_from pat (length m - 1) cs" by simp
      ultimately show ?thesis by simp
    qed
  qed
qed (auto split: option.splits dest: match_here_consumes)

lemma findall_from_matches:
  "m \<in> set (findall_from pat k s) \<Longrightarrow>
     \<exists>t rest. suffix t s \<and> match_here pat t = Some (m, rest)"
proof (induction pat k s rule: findall_from.induct)
  case (1 pat k)
  then show ?case by simp
next
  case (2 pat k c cs)
  then show ?case by (auto intro: suffix_ConsI)
next
  case (3 pat)
  then show ?case by (cases "match_here pat []") auto
next
  case (4 pat c cs)
  show ?case
  proof (cases "match_here pat (c # cs)")
    case None
    with 4 show ?thesis by (auto intro: suffix_ConsI)
  next
    case (Some res)
    obtain m' rest where res: "res = (m', rest)" by (cases res)
    from "4.prems" Some res
    have "m = m' \<or> m \<in> set (findall_from pat (length m' - 1) cs)" by auto
    then show ?thesis
    proof
      assume "m = m'"
      with Some res show ?thesis by blast
    next
      assume "m \<in> set (findall_from pat (length m' - 1) cs)"
      from 4(2) [OF Some res [symmetric] this] show ?thesis
        by (auto intro: suffix_ConsI)
    qed
  qed
qed

lemma search_matches:
  "search pat s = Some m \<Longrightarrow> \<exists>t rest. suffix t s \<and> match_here pat t = Some (m, rest)"
proof (induction s)
  case Nil
  then show ?case by auto
next
  case (Cons c cs)
  show ?case
  proof (cases "match_here pat (c # cs)")
    case None
    with Cons show ?thesis by (auto intro: suffix_ConsI)
  next
    case (Some res)
    with Cons.prems show ?thesis by (cases res) auto
  qed
qed

lemma group_classes:
  assumes "match_here pat t = Some (m, rest)" and "c \<in> set (group g m)"
  shows "\<exists>q cl. (g, q, cl) \<in> set pat \<and> in_class cl c"
proof -
  from assms(2) have "(g, c) \<in> set m" by (auto simp: group_def)
  with assms(1) show ?thesis by (rule match_here_classes)
qed

lemma group_nonempty:
  assumes "match_here pat t = Some (m, rest)" and "(g, Plus, cl) \<in> set pat"
  shows "group g m \<noteq> []"
proof -
  from assms obtain c where "(g, c) \<in> set m" by (blast dest: match_here_once)
  then have "c \<in> set (group g m)" by (force simp: group_def)
  then show ?thesis by auto
qed

lemma findall_patterns_consume:
  assumes "pat = script_pattern \<or> pat = speaker_pattern"
    and "match_here pat t = Some (m, rest)"
  shows "m \<noteq> []"
proof -
  from assms(1) have "\<exists>cl. (0, One, cl) \<in> set pat"
    by (auto simp: script_pattern_def speaker_pattern_def lit_def lit_ignorecase_def)
  with assms(2) obtain c where "(0, c) \<in> set m" by (blast dest: match_here_once)
  then show ?thesis by auto
qed

lemma replace_absent:
  "old \<noteq> [] \<Longrightarrow> \<not> sublist old s \<Longrightarrow> replace old new s = s"
proof (induction s)
  case Nil
  then show ?case by (simp add: replace.simps)
next
  case (Cons c cs)
  then have "\<not> prefix old (c # cs)" and "\<not> sublist old cs"
    by (auto simp: sublist_Cons_right)
  with Cons show ?case by (subst replace.simps) simp
qed

subsection \<open>The script blocks\<close>

lemma content_value_unquoted:
  assumes "search content_pattern script = Some content_match"
  shows "CHR 0x22 \<notin> set (group 1 content_match)"
proof
  assume "CHR 0x22 \<in> set (group 1 content_match)"
  moreover from assms obtain t rest where "match_here content_pattern t = Some (content_match, rest)"
    by (blast dest: search_matches)
  ultimately obtain q cl where "(1, q, cl) \<in> set content_pattern" and "in_class cl (CHR 0x22)"
    by (blast dest: group_classes)
  then show False by (auto simp: content_pattern_def lit_def)
qed

lemma content_value_unescape:
  assumes "search content_pattern script = Some content_match"
  shows "unescape (group 1 content_match)
     = replace [CHR 0x5C, CHR ''n''] [CHR 0x0A] (group 1 content_match)"
proof -
  from assms have "CHR 0x22 \<notin> set (group 1 content_match)" by (rule content_value_unquoted)
  then have "\<not> sublist [CHR 0x5C, CHR 0x22] (group 1 content_match)"
    by (auto dest: set_mono_sublist)
  then show ?thesis by (simp add: unescape_def replace_absent)
qed

lemma scripts_loop_skip:
  "\<forall>s \<in> set pre. search json_pattern s = None \<Longrightarrow>
     scripts_loop (pre @ rest) = scripts_loop rest"
  by (induction pre) auto

text \<open>
  C9. Let \<open>script\<close> be the first script block in which the \<open>transcript\<close> fragment
  pattern is found. If the \<open>content\<close> pattern is found in that block, the strategy
  returns its captured value, and if not but the \<open>text\<close> pattern is found, the
  captured value of that, in both cases after replacing backslash-quote by a quote and
  then backslash-n by a line feed and nothing else; the blocks after it are not looked
  at. Only when the block has neither does the scan go on.
\<close>

theorem scripts_first_transcript_block:
  assumes "map (group 1) (findall script_pattern html_content) = pre @ script # post"
    and "\<forall>s \<in> set pre. search json_pattern s = None"
    and "search json_pattern script = Some json_match"
  shows "extract_from_scripts self html_content =
     (case search content_pattern script of
        Some content_match \<Rightarrow>
          replace [CHR 0x5C, CHR ''n''] [CHR 0x0A]
            (replace [CHR 0x5C, CHR 0x22] [CHR 0x22] (group 1 content_match))
      | None \<Rightarrow>
          (case search text_pattern script of
             Some text_match \<Rightarrow>
               replace [CHR 0x5C, CHR ''n''] [CHR 0x0A]
                 (replace [CHR 0x5C, CHR 0x22] [CHR 0x22] (group 1 text_match))
           | None \<Rightarrow> scripts_loop post))"
proof -
  from assms(1,2) have "extract_from_scripts self html_content = scripts_loop (script # post)"
    by (simp add: extract_from_scripts_def scripts_loop_skip)
  with assms(3) show ?thesis
    by (simp add: unescape_def split: option.splits)
qed

theorem scripts_first_transcript_block_witness:
  \<open>map (group 1) (findall script_pattern scripts_html) =
     [''var a = 1;''] @
      (''{"transcript": true, "content": "Hello'' @ [CHR 0x5C] @ ''nWorld"}'') #
      [''{"transcript": 1, "content": "later"}'']
   \<and> search json_pattern ''var a = 1;'' = None
   \<and> search json_pattern (''{"transcript": true, "content": "Hello'' @ [CHR 0x5C] @ ''nWorld"}'') \<noteq> None
   \<and> extract_from_scripts (init False) scripts_html = ''Hello'' @ [CHR 0x0A] @ ''World''\<close>
proof -
  let ?second = \<open>''{"transcript": true, "content": "Hello'' @ [CHR 0x5C] @ ''nWorld"}''\<close>
  have blocks: \<open>map (group 1) (findall script_pattern scripts_html) =
     [''var a = 1;''] @ ?second # [''{"transcript": 1, "content": "later"}'']\<close>
    by code_simp
  have first: "\<forall>s \<in> set [''var a = 1;'']. search json_pattern s = None"
    by code_simp
  obtain jm where json: "search json_pattern ?second = Some jm"
    by (cases "search json_pattern ?second") (simp_all, code_simp)
  have "map_option (group 1) (search content_pattern ?second)
      = Some (''Hello'' @ [CHR 0x5C] @ ''nWorld'')"
    by code_simp
  then obtain cm where found: "search content_pattern ?second = Some cm"
    and val: "group 1 cm = ''Hello'' @ [CHR 0x5C] @ ''nWorld''"
    unfolding map_option_eq_Some by blast
  have unesc: "replace [CHR 0x5C, CHR ''n''] [CHR 0x0A]
                 (replace [CHR 0x5C, CHR 0x22] [CHR 0x22] (''Hello'' @ [CHR 0x5C] @ ''nWorld''))
               = ''Hello'' @ [CHR 0x0A] @ ''World''"
    by code_simp
  have "extract_from_scripts (init False) scripts_html = ''Hello'' @ [CHR 0x0A] @ ''World''"
    unfolding scripts_first_transcript_block [OF blocks first json, of "init False"] found
      option.case val unesc by (rule refl)
  moreover from first have "search json_pattern ''var a = 1;'' = None"
    by (simp del: search.simps)
  moreover from json have "search json_pattern ?second \<noteq> None"
    by (simp del: search.simps)
  ultimately show ?thesis using blocks by (simp del: search.simps)
qed

subsection \<open>The speaker pattern\<close>

lemma speaker_match_groups:
  assumes "m \<in> set (findall speaker_pattern html_content)"
  shows "group 1 m \<noteq> [] \<and> CHR ''<'' \<notin> set (group 1 m) \<and> CHR '':'' \<notin> set (group 1 m)
     \<and> group 2 m \<noteq> [] \<and> CHR ''<'' \<notin> set (group 2 m)
     \<and> sublist (map snd m) html_content"
proof -
  from assms obtain t rest where suf: "suffix t html_content"
    and mh: "match_here speaker_pattern t = Some (m, rest)"
    unfolding findall_def by (blast dest: findall_from_matches)
  have g1: "(1, q, cl) \<in> set speaker_pattern \<Longrightarrow> cl = NoneOf ''<:''" for q cl
    by (auto simp: speaker_pattern_def lit_ignorecase_def)
  have g2: "(2, q, cl) \<in> set speaker_pattern \<Longrightarrow> cl = NoneOf ''<''" for q cl
    by (auto simp: speaker_pattern_def lit_ignorecase_def)
  have p1: "(1, Plus, NoneOf ''<:'') \<in> set speaker_pattern"
    and p2: "(2, Plus, NoneOf ''<'') \<in> set speaker_pattern"
    by (simp_all add: speaker_pattern_def)
  have "group 1 m \<noteq> []" and "group 2 m \<noteq> []"
    using group_nonempty [OF mh p1] group_nonempty [OF mh p2] by simp_all
  moreover have "c \<noteq> CHR ''<'' \<and> c \<noteq> CHR '':''" if "c \<in> set (group 1 m)" for c
  proof -
    from group_classes [OF mh that] obtain q cl
      where mem: "(1, q, cl) \<in> set speaker_pattern" and cls: "in_class cl c" by blast
    from mem have "cl = NoneOf ''<:''" by (rule g1)
    with cls show ?thesis by auto
  qed
  moreover have "c \<noteq> CHR ''<''" if "c \<in> set (group 2 m)" for c
  proof -
    from group_classes [OF mh that] obtain q cl
      where mem: "(2, q, cl) \<in> set speaker_pattern" and cls: "in_class cl c" by blast
    from mem have "cl = NoneOf ''<''" by (rule g2)
    with cls show ?thesis by auto
  qed
  moreover from mh have "t = map snd m @ rest" by (rule match_here_consumes)
  with suf have "sublist (map snd m) html_content"
    by (auto simp: suffix_def sublist_def)
  ultimately show ?thesis by blast
qed

lemma speaker_matches_in_order:
  "subseq (concat (map (map snd) (findall speaker_pattern html_content))) html_content"
  using findall_from_in_order [of speaker_pattern 0 html_content] by (simp add: findall_def)

text \<open>
  C4. With 10 or fewer matches of the speaker pattern in the markup the strategy
  returns the empty string; with 11 or more it returns one line \<open>Name: text\<close> for every
  match, both parts trimmed, in the left-to-right order of the matches, joined with
  blank lines. Ten turns give the empty string and eleven turns a transcript of eleven
  lines.
\<close>

theorem speaker_pattern_threshold:
  "extract_transcript_pattern self html_content =
     (let matches = findall speaker_pattern html_content in
      if length matches \<le> 10 then []
      else join blank_line
             (map (\<lambda>m. strip (group 1 m) @ '': '' @ strip (group 2 m)) matches))"
  by (auto simp: extract_transcript_pattern_def Let_def comp_def)

theorem speaker_pattern_threshold_witness:
  "length (findall speaker_pattern (speaker_html ''ABCDEFGHIJ'')) = 10
   \<and> extract_transcript_pattern (init False) (speaker_html ''ABCDEFGHIJ'') = []
   \<and> length (findall speaker_pattern (speaker_html ''ABCDEFGHIJK'')) = 11
   \<and> extract_transcript_pattern (init False) (speaker_html ''ABCDEFGHIJK'')
       = join blank_line (map (\<lambda>c. [c] @ '': hi'') ''ABCDEFGHIJK'')"
proof -
  let ?line = "\<lambda>m. strip (group 1 m) @ '': '' @ strip (group 2 m)"
  have ten: "map ?line (findall speaker_pattern (speaker_html ''ABCDEFGHIJ''))
      = map (\<lambda>c. [c] @ '': hi'') ''ABCDEFGHIJ''"
    by code_simp
  have eleven: "map ?line (findall speaker_pattern (speaker_html ''ABCDEFGHIJK''))
      = map (\<lambda>c. [c] @ '': hi'') ''ABCDEFGHIJK''"
    by code_simp
  have "length (map ?line (findall speaker_pattern (speaker_html ''ABCDEFGHIJ''))) = 10"
    by (simp only: ten) simp
  then have len10: "length (findall speaker_pattern (speaker_html ''ABCDEFGHIJ'')) = 10"
    by simp
  have "length (map ?line (findall speaker_pattern (speaker_html ''ABCDEFGHIJK''))) = 11"
    by (simp only: eleven) simp
  then have len11: "length (findall speaker_pattern (speaker_html ''ABCDEFGHIJK'')) = 11"
    by simp
  from speaker_pattern_threshold [of "init False" "speaker_html ''ABCDEFGHIJ''"] len10
  have r10: "extract_transcript_pattern (init False) (speaker_html ''ABCDEFGHIJ'') = []"
    by (simp add: Let_def)
  from speaker_pattern_threshold [of "init False" "speaker_html ''ABCDEFGHIJK''"] len11
  have r11: "extract_transcript_pattern (init False) (speaker_html ''ABCDEFGHIJK'')
       = join blank_line (map ?line (findall speaker_pattern (speaker_html ''ABCDEFGHIJK'')))"
    by (simp add: Let_def)
  from len10 r10 len11 r11 show ?thesis
    by (simp only: eleven)
qed

end
